theory Spec2Isabelle
  imports Complex_Main
begin

section \<open>The router of ctzn: static/js/app.js\<close>

text \<open>
  The class \<open>CtznApp\<close> of \<^verbatim>\<open>static/js/app.js\<close> is the top-level router of the
  application. Its handlers are modelled as functions of the component's fields (the
  record \<open>app\<close>), of a snapshot of the browser state they read (the record
  \<open>browser\<close>) and of their event; they return the updated fields and the list of the
  effects they had on the outside, in program order, with the value they threw if they
  threw one. A JavaScript string is a
  \<open>string\<close>, one \<open>char\<close> for each code unit (code units above 255 are not
  represented); a JavaScript number that is a scroll offset is a \<open>real\<close>: offsets
  are only copied and tested for truthiness, and \<^verbatim>\<open>window.scrollY\<close> is never NaN.
\<close>

subsection \<open>Regular expressions\<close>

text \<open>
  The three patterns of the source are sequences of single-character matchers, some
  of them under \<^verbatim>\<open>+\<close>. The capturing groups are not represented: the
  source only calls \<^verbatim>\<open>RegExp.prototype.test\<close>, whose result does not depend on
  them. \<^verbatim>\<open>test\<close> asks whether the pattern matches at some position of the string,
  up to any later position: the patterns carry neither \<^verbatim>\<open>^\<close> nor \<^verbatim>\<open>$\<close>,
  and neither the \<^verbatim>\<open>g\<close> nor the \<^verbatim>\<open>y\<close> flag, so \<^verbatim>\<open>lastIndex\<close> plays no role.
\<close>

datatype atom =
    Lit char          \<comment> \<open>a pattern character that stands for itself\<close>
  | Dot               \<comment> \<open>\<^verbatim>\<open>.\<close>: any character but a line terminator\<close>
  | NotChar char      \<comment> \<open>\<^verbatim>\<open>[^c]\<close>\<close>

datatype piece =
    One atom          \<comment> \<open>\<^verbatim>\<open>x\<close>\<close>
  | OneOrMore atom    \<comment> \<open>\<^verbatim>\<open>x+\<close>\<close>

record regexp =
  pieces :: "piece list"
  ignoreCase :: bool  \<comment> \<open>the \<^verbatim>\<open>i\<close> flag\<close>

text \<open>
  \<open>Canonicalize\<close> of ECMAScript for a pattern without the \<^verbatim>\<open>u\<close> flag: the
  character is upper-cased, except that a character outside ASCII is never mapped into
  ASCII. On the code units of ASCII this maps \<open>a\<close>..\<open>z\<close> to \<open>A\<close>..\<open>Z\<close>; the
  pattern characters of this file are all ASCII, so the mapping of the other code
  units among themselves is left out.
\<close>

definition upper_case :: "(char \<times> char) list" where
  "upper_case = zip ''abcdefghijklmnopqrstuvwxyz'' ''ABCDEFGHIJKLMNOPQRSTUVWXYZ''"

definition canonicalize :: "char \<Rightarrow> char" where
  "canonicalize c = (case map_of upper_case c of Some u \<Rightarrow> u | None \<Rightarrow> c)"

definition lineTerminator :: "char \<Rightarrow> bool" where
  "lineTerminator c \<longleftrightarrow> c = CHR 0x0A \<or> c = CHR 0x0D"

fun atom_matches :: "bool \<Rightarrow> atom \<Rightarrow> char \<Rightarrow> bool" where
  "atom_matches ic (Lit x) c = (if ic then canonicalize c = canonicalize x else c = x)"
| "atom_matches ic Dot c = (\<not> lineTerminator c)"
| "atom_matches ic (NotChar x) c = (if ic then canonicalize c \<noteq> canonicalize x else c \<noteq> x)"

text \<open>
  \<open>match_here ic ps s\<close>: the pieces \<open>ps\<close> match a prefix of \<open>s\<close>. As in the
  backtracking matcher of ECMAScript, \<^verbatim>\<open>+\<close> is greedy: it first tries to take one
  more character and falls back to the rest of the pattern.
\<close>

fun match_here :: "bool \<Rightarrow> piece list \<Rightarrow> string \<Rightarrow> bool" where
  "match_here ic [] s = True"
| "match_here ic (One a # ps) [] = False"
| "match_here ic (One a # ps) (c # cs) =
     (if atom_matches ic a c then match_here ic ps cs else False)"
| "match_here ic (OneOrMore a # ps) [] = False"
| "match_here ic (OneOrMore a # ps) (c # cs) =
     (if atom_matches ic a c
      then (if match_here ic (OneOrMore a # ps) cs then True else match_here ic ps cs)
      else False)"

text \<open>The match may start at any index of the string, tried from the left.\<close>

fun match_from :: "bool \<Rightarrow> piece list \<Rightarrow> string \<Rightarrow> bool" where
  "match_from ic ps [] = match_here ic ps []"
| "match_from ic ps (c # cs) =
     (if match_here ic ps (c # cs) then True else match_from ic ps cs)"

definition test :: "regexp \<Rightarrow> string \<Rightarrow> bool" where
  "test r s = match_from (ignoreCase r) (pieces r) s"

definition lits :: "string \<Rightarrow> piece list" where
  "lits s = map (\<lambda>c. One (Lit c)) s"

text \<open>\<^verbatim>\<open>([^/]+@[^/]+)\<close>, the address-like token shared by the three patterns.\<close>

definition address_token :: "piece list" where
  "address_token =
     [OneOrMore (NotChar CHR ''/''), One (Lit CHR ''@''), OneOrMore (NotChar CHR ''/'')]"

text \<open>\<^verbatim>\<open>new RegExp('/([^/]+@[^/]+)/ctzn.network/post/([^/]+)', 'i')\<close>\<close>

definition POST_PATH_REGEX :: regexp where
  "POST_PATH_REGEX =
     \<lparr>pieces = lits ''/'' @ address_token @ lits ''/ctzn'' @ [One Dot] @ lits ''network/post/''
                @ [OneOrMore (NotChar CHR ''/'')],
      ignoreCase = True\<rparr>"

text \<open>\<^verbatim>\<open>new RegExp('/([^/]+@[^/]+)/ctzn.network/comment/([^/]+)', 'i')\<close>\<close>

definition COMMENT_PATH_REGEX :: regexp where
  "COMMENT_PATH_REGEX =
     \<lparr>pieces = lits ''/'' @ address_token @ lits ''/ctzn'' @ [One Dot] @ lits ''network/comment/''
                @ [OneOrMore (NotChar CHR ''/'')],
      ignoreCase = True\<rparr>"

text \<open>\<^verbatim>\<open>new RegExp('/([^/]+@[^/]+)')\<close>\<close>

definition USER_PATH_REGEX :: regexp where
  "USER_PATH_REGEX = \<lparr>pieces = lits ''/'' @ address_token, ignoreCase = False\<rparr>"

subsection \<open>The component and what it renders\<close>

record scroll_position =
  pathname :: string
  scrollY :: real

record app =
  isLoading :: bool
  currentPath :: string
  scrollPositionCache :: "scroll_position option"   \<comment> \<open>\<open>None\<close> is \<^verbatim>\<open>undefined\<close>\<close>

text \<open>The templates that \<^verbatim>\<open>render\<close> returns, by the element they hold.\<close>

datatype view =
    Spinner
  | MainView
  | ForgotPasswordView
  | NotificationsView
  | CommunitiesView
  | AccountView
  | SearchView
  | SignupView
  | PostView string       \<comment> \<open>\<^verbatim>\<open>ctzn-post-view\<close> with its \<^verbatim>\<open>current-path\<close>\<close>
  | UserView string       \<comment> \<open>\<^verbatim>\<open>ctzn-user-view\<close> with its \<^verbatim>\<open>current-path\<close>\<close>
  | NotFound

definition render :: "app \<Rightarrow> view" where
  "render a =
     (if isLoading a then Spinner
      else if currentPath a = ''/'' \<or> currentPath a = ''/index''
              \<or> currentPath a = ''/index.html'' then MainView
      else if currentPath a = ''/forgot-password'' then ForgotPasswordView
      else if currentPath a = ''/notifications'' then NotificationsView
      else if currentPath a = ''/communities'' then CommunitiesView
      else if currentPath a = ''/account'' then AccountView
      else if currentPath a = ''/search'' then SearchView
      else if currentPath a = ''/signup'' then SignupView
      else if test POST_PATH_REGEX (currentPath a) then PostView (currentPath a)
      else if test COMMENT_PATH_REGEX (currentPath a) then PostView (currentPath a)
      else if test USER_PATH_REGEX (currentPath a) then UserView (currentPath a)
      else NotFound)"

subsection \<open>The browser, as the handlers see it\<close>

text \<open>
  What a handler reads from the globals \<^verbatim>\<open>history\<close> and \<^verbatim>\<open>window\<close> while it runs.
\<close>

record browser =
  history_scrollRestoration :: "string option"  \<comment> \<open>\<open>None\<close>: the property is absent\<close>
  window_scrollY :: real
  location_pathname :: string
  location_origin :: string

text \<open>
  The state of a session-history entry, as this program writes it: \<^verbatim>\<open>null\<close> is the
  state of an entry the program never stamped, \<open>StateObject None\<close> is \<^verbatim>\<open>{}\<close> and
  \<open>StateObject (Some y)\<close> is \<^verbatim>\<open>{scrollY: y}\<close>.
\<close>

datatype history_state = StateNull | StateObject "real option"

datatype js_error =
    TypeError
  | SecurityError   \<comment> \<open>the \<^verbatim>\<open>DOMException\<close> of that name\<close>
  | Thrown string   \<comment> \<open>any other thrown value, by its message\<close>

text \<open>
  The fields of a \<^verbatim>\<open>URL\<close> object. The constructor \<^verbatim>\<open>new URL(href, base)\<close> belongs to
  the browser: the handlers take it as the parameter \<open>URL_new\<close>, whose result is the
  parsed URL or the \<^verbatim>\<open>TypeError\<close> it throws on an invalid one.
\<close>

record url =
  url_origin :: string
  url_pathname :: string
  url_search :: string
  url_hash :: string

type_synonym URL_constructor = "string \<Rightarrow> string \<Rightarrow> js_error + url"

text \<open>
  \<^verbatim>\<open>history.pushState(state, unused, url)\<close> resolves \<open>url\<close> against the document
  and throws a \<^verbatim>\<open>SecurityError\<close> when that fails or when the result has another origin
  than the document, which is served over http or https. By the URL standard a
  reference that starts with a single slash keeps the scheme, the host and the port of
  its base, and its resolution cannot fail; the parser drops tabs and newlines before
  it looks at the slashes, and takes a backslash for a slash. Such a reference never
  makes \<^verbatim>\<open>pushState\<close> throw. For every other string the origin is the one that the
  parameter \<open>URL_new\<close> gives.
\<close>

definition strip_tab_newline :: "string \<Rightarrow> string" where
  "strip_tab_newline s = filter (\<lambda>c. c \<noteq> CHR 0x09 \<and> c \<noteq> CHR 0x0A \<and> c \<noteq> CHR 0x0D) s"

fun single_slash_start :: "string \<Rightarrow> bool" where
  "single_slash_start [] = False"
| "single_slash_start [c] = (c = CHR ''/'')"
| "single_slash_start (c # d # s) = (c = CHR ''/'' \<and> d \<noteq> CHR ''/'' \<and> d \<noteq> CHR 0x5C)"

definition path_absolute :: "string \<Rightarrow> bool" where
  "path_absolute s = single_slash_start (strip_tab_newline s)"

definition pushState_throws :: "URL_constructor \<Rightarrow> browser \<Rightarrow> string \<Rightarrow> bool" where
  "pushState_throws URL_new b u =
     (if path_absolute u then False
      else case URL_new u (location_origin b) of
             Inl err \<Rightarrow> True
           | Inr target \<Rightarrow> url_origin target \<noteq> location_origin b)"

text \<open>What a handler does to the outside, and its writes to the reactive properties.\<close>

datatype effect =
    SetScrollRestoration string        \<comment> \<open>\<^verbatim>\<open>history.scrollRestoration = ...\<close>\<close>
  | ReplaceState history_state         \<comment> \<open>\<^verbatim>\<open>window.history.replaceState(state, null)\<close>\<close>
  | PushState history_state string     \<comment> \<open>\<^verbatim>\<open>window.history.pushState(state, null, url)\<close>\<close>
  | SetCurrentPath string              \<comment> \<open>\<^verbatim>\<open>this.currentPath = ...\<close>\<close>
  | SetIsLoading bool                  \<comment> \<open>\<^verbatim>\<open>this.isLoading = ...\<close>\<close>
  | ScrollToAfterLoad real             \<comment> \<open>\<^verbatim>\<open>this.scrollToAfterLoad(y)\<close>: a restoration is scheduled\<close>
  | Emit string                        \<comment> \<open>\<^verbatim>\<open>emit(document, name)\<close>\<close>
  | PreventDefault                     \<comment> \<open>\<^verbatim>\<open>e.preventDefault()\<close>\<close>

text \<open>The result of a handler that may throw: the thrown value ends the effects.\<close>

type_synonym outcome = "app \<times> effect list \<times> js_error option"

definition state_after :: "outcome \<Rightarrow> app" where
  "state_after r = fst r"

definition effects_of :: "outcome \<Rightarrow> effect list" where
  "effects_of r = fst (snd r)"

definition thrown_by :: "outcome \<Rightarrow> js_error option" where
  "thrown_by r = snd (snd r)"

text \<open>Truthiness of a value that is a string or \<^verbatim>\<open>undefined\<close>.\<close>

fun truthy_string :: "string option \<Rightarrow> bool" where
  "truthy_string None = False"
| "truthy_string (Some s) = (s \<noteq> [])"

subsection \<open>The constructor and \<^verbatim>\<open>load\<close>\<close>

definition CtznApp_constructor :: "browser \<Rightarrow> app" where
  "CtznApp_constructor b =
     \<lparr>isLoading = True, currentPath = location_pathname b, scrollPositionCache = None\<rparr>"

text \<open>
  \<^verbatim>\<open>load\<close> awaits \<^verbatim>\<open>session.setup()\<close>, which is not part of this file: the
  function takes the way that promise settled, \<open>Inr ()\<close> when it was fulfilled and
  \<open>Inl e\<close> when it was rejected with \<open>e\<close>, and runs from there. The \<^verbatim>\<open>finally\<close>
  block runs in both cases and the rejection is thrown again after it.
\<close>

definition load :: "js_error + unit \<Rightarrow> app \<Rightarrow> outcome" where
  "load settled a =
     (a\<lparr>isLoading := False\<rparr>, [SetIsLoading False],
      case settled of Inl e \<Rightarrow> Some e | Inr _ \<Rightarrow> None)"

subsection \<open>\<^verbatim>\<open>navigateTo\<close>\<close>

text \<open>
  The parameter \<^verbatim>\<open>pathname\<close> of the source is \<open>path\<close> here, \<open>pathname\<close> being the
  field of the cached record. When \<^verbatim>\<open>pushState\<close> throws, the statements after it do
  not run: \<^verbatim>\<open>currentPath\<close> keeps its value and no restoration is scheduled, while the
  cache and the state of the current history entry have been written.
  \<^verbatim>\<open>scrollToAfterLoad\<close> awaits the pending update and then hands the offset to the
  view inside a \<^verbatim>\<open>try\<close> whose \<^verbatim>\<open>catch\<close> swallows every error: the call is recorded
  as the effect \<open>ScrollToAfterLoad\<close>, and it never throws.
\<close>

definition navigateTo :: "URL_constructor \<Rightarrow> browser \<Rightarrow> string \<Rightarrow> app \<Rightarrow> outcome" where
  "navigateTo URL_new b path a =
     (let manual = (if truthy_string (history_scrollRestoration b)
                    then [SetScrollRestoration ''manual''] else []);
          prevScrollPositionCache = scrollPositionCache a;
          a1 = (if currentPath a = ''/'' \<or> currentPath a = ''/notifications''
                then a\<lparr>scrollPositionCache :=
                         Some \<lparr>pathname = currentPath a, scrollY = window_scrollY b\<rparr>\<rparr>
                else a);
          replaced = manual @ [ReplaceState (StateObject (Some (window_scrollY b)))];
          restore = (case prevScrollPositionCache of
                       None \<Rightarrow> []
                     | Some prev \<Rightarrow>
                         if pathname prev = path then [ScrollToAfterLoad (scrollY prev)] else [])
      in if pushState_throws URL_new b path then (a1, replaced, Some SecurityError)
         else (a1\<lparr>currentPath := path\<rparr>,
               replaced @ [PushState (StateObject None) path, SetCurrentPath path] @ restore,
               None))"

subsection \<open>The event handlers\<close>

text \<open>
  A member of \<^verbatim>\<open>e.composedPath()\<close>: an element, with its \<^verbatim>\<open>tagName\<close> and the
  value of \<^verbatim>\<open>getAttribute('href')\<close> (\<open>None\<close> is \<^verbatim>\<open>null\<close>), or one of the other
  event targets of the path (a shadow root, the document, the window), which have no
  \<^verbatim>\<open>tagName\<close>.
\<close>

datatype node = Element string "string option" | OtherTarget

fun tagName_is :: "string \<Rightarrow> node \<Rightarrow> bool" where
  "tagName_is t (Element n h) = (n = t)"
| "tagName_is t OtherTarget = False"

fun getAttribute_href :: "node \<Rightarrow> string option" where
  "getAttribute_href (Element n h) = h"
| "getAttribute_href OtherTarget = None"

record click_event =
  defaultPrevented :: bool
  composedPath :: "node list"   \<comment> \<open>from the target outwards\<close>

text \<open>The loop over the composed path, with the variable \<^verbatim>\<open>anchor\<close> as accumulator.\<close>

fun find_anchor :: "node list \<Rightarrow> node option \<Rightarrow> node option" where
  "find_anchor [] anchor = anchor"
| "find_anchor (el # els) anchor =
     find_anchor els (if tagName_is ''A'' el then Some el else anchor)"

definition onGlobalClick ::
  "URL_constructor \<Rightarrow> browser \<Rightarrow> click_event \<Rightarrow> app \<Rightarrow> outcome" where
  "onGlobalClick URL_new b e a =
     (if defaultPrevented e then (a, [], None)
      else case find_anchor (composedPath e) None of
        None \<Rightarrow> (a, [], None)
      | Some anchor \<Rightarrow>
          (case getAttribute_href anchor of
             None \<Rightarrow> (a, [], None)
           | Some href \<Rightarrow>
               (case URL_new href (location_origin b) of
                  Inl err \<Rightarrow> (a, [], Some err)
                | Inr u \<Rightarrow>
                    if url_origin u = location_origin b
                    then (state_after (navigateTo URL_new b (url_pathname u) a),
                          PreventDefault # effects_of (navigateTo URL_new b (url_pathname u) a),
                          thrown_by (navigateTo URL_new b (url_pathname u) a))
                    else (a, [], None))))"

text \<open>
  \<^verbatim>\<open>onViewThread\<close> splits \<^verbatim>\<open>dbUrl\<close> at \<^verbatim>\<open>DRIVE_KEY_REGEX\<close>, a constant of
  \<^verbatim>\<open>lib/strings.js\<close> that is not part of this file: the split is the parameter
  \<open>split_DRIVE_KEY\<close>. The destructuring \<^verbatim>\<open>[_, path]\<close> takes the second piece, and
  the template literal prints a missing one as \<^verbatim>\<open>undefined\<close>.
\<close>

record view_thread_subject =
  authorId :: string
  dbUrl :: string

definition onViewThread ::
  "URL_constructor \<Rightarrow> (string \<Rightarrow> string list) \<Rightarrow> browser \<Rightarrow> view_thread_subject \<Rightarrow> app
   \<Rightarrow> outcome" where
  "onViewThread URL_new split_DRIVE_KEY b subject a =
     (let path = (case split_DRIVE_KEY (dbUrl subject) of
                    _ # p # _ \<Rightarrow> p
                  | _ \<Rightarrow> ''undefined'')
      in navigateTo URL_new b (''/'' @ authorId subject @ path) a)"

definition onNavigateTo :: "URL_constructor \<Rightarrow> browser \<Rightarrow> string \<Rightarrow> app \<Rightarrow> outcome" where
  "onNavigateTo URL_new b detail_url a = navigateTo URL_new b detail_url a"

text \<open>
  \<^verbatim>\<open>onHistoryPopstate\<close>, given \<^verbatim>\<open>e.state\<close>. \<^verbatim>\<open>emit\<close> is a helper of
  \<^verbatim>\<open>lib/dom.js\<close> that dispatches a custom event of the given name on its first
  argument; it is the effect \<open>Emit\<close>. Reading \<^verbatim>\<open>scrollY\<close> of \<^verbatim>\<open>null\<close> throws a
  \<^verbatim>\<open>TypeError\<close>, after the two statements before it have run.
\<close>

definition onHistoryPopstate :: "browser \<Rightarrow> history_state \<Rightarrow> app \<Rightarrow> outcome" where
  "onHistoryPopstate b state a =
     (let a1 = a\<lparr>currentPath := location_pathname b\<rparr>;
          before = [Emit ''close-all-popups'', SetCurrentPath (location_pathname b)]
      in case state of
           StateNull \<Rightarrow> (a1, before, Some TypeError)
         | StateObject None \<Rightarrow> (a1, before, None)
         | StateObject (Some y) \<Rightarrow>
             if y \<noteq> 0 then (a1, before @ [ScrollToAfterLoad y], None)
             else (a1, before, None))"

subsection \<open>The component as a reactive system\<close>

text \<open>
  The events the component listens to, and the settling of the promise that
  \<^verbatim>\<open>load\<close> awaits. Each event comes with the browser state its handler sees. A
  handler that throws keeps the writes it made before.
\<close>

datatype event =
    Click click_event
  | ViewThread view_thread_subject
  | NavigateTo string
  | Popstate history_state
  | SetupSettled "js_error + unit"

fun handle ::
  "URL_constructor \<Rightarrow> (string \<Rightarrow> string list) \<Rightarrow> browser \<Rightarrow> event \<Rightarrow> app \<Rightarrow> outcome" where
  "handle URL_new split_DRIVE_KEY b (Click e) a = onGlobalClick URL_new b e a"
| "handle URL_new split_DRIVE_KEY b (ViewThread subject) a =
     onViewThread URL_new split_DRIVE_KEY b subject a"
| "handle URL_new split_DRIVE_KEY b (NavigateTo detail_url) a =
     onNavigateTo URL_new b detail_url a"
| "handle URL_new split_DRIVE_KEY b (Popstate state) a = onHistoryPopstate b state a"
| "handle URL_new split_DRIVE_KEY b (SetupSettled settled) a = load settled a"

fun run ::
  "URL_constructor \<Rightarrow> (string \<Rightarrow> string list) \<Rightarrow> (browser \<times> event) list \<Rightarrow> app \<Rightarrow> app" where
  "run URL_new split_DRIVE_KEY [] a = a"
| "run URL_new split_DRIVE_KEY ((b, ev) # rest) a =
     run URL_new split_DRIVE_KEY rest (state_after (handle URL_new split_DRIVE_KEY b ev a))"

subsection \<open>Notions of the specification\<close>

text \<open>The restorations among the effects of a handler, in order.\<close>

fun restorations :: "effect list \<Rightarrow> real list" where
  "restorations [] = []"
| "restorations (ScrollToAfterLoad y # es) = y # restorations es"
| "restorations (_ # es) = restorations es"

text \<open>The cache holds nothing, or the position of the home or notifications page.\<close>

definition cache_inv :: "app \<Rightarrow> bool" where
  "cache_inv a =
     (case scrollPositionCache a of
        None \<Rightarrow> True
      | Some c \<Rightarrow> pathname c = ''/'' \<or> pathname c = ''/notifications'')"

text \<open>The first segment of a path: what stands between its leading slash and the next one.\<close>

definition first_segment :: "string \<Rightarrow> string" where
  "first_segment p = takeWhile (\<lambda>c. c \<noteq> CHR ''/'') (case p of [] \<Rightarrow> [] | c # cs \<Rightarrow> if c = CHR ''/'' then cs else p)"

text \<open>
  The anchor of a composed path that is nearest to the target is the first one of the
  path, the outermost anchor is the last one.
\<close>

definition nearest_anchor :: "node list \<Rightarrow> node option" where
  "nearest_anchor path =
     (case filter (tagName_is ''A'') path of [] \<Rightarrow> None | el # _ \<Rightarrow> Some el)"

definition outermost_anchor :: "node list \<Rightarrow> node option" where
  "outermost_anchor path =
     (case rev (filter (tagName_is ''A'') path) of [] \<Rightarrow> None | el # _ \<Rightarrow> Some el)"

subsection \<open>Values for the examples\<close>

definition example_browser :: "string \<Rightarrow> real \<Rightarrow> browser" where
  "example_browser p y =
     \<lparr>history_scrollRestoration = Some ''auto'', window_scrollY = y,
      location_pathname = p, location_origin = ''https://ctzn.one''\<rparr>"

text \<open>The values of \<^verbatim>\<open>new URL(href, base)\<close> on the references of the examples.\<close>

definition example_URL :: URL_constructor where
  "example_URL href base =
     (if href = ''/outer'' \<or> href = ''/inner'' then
        Inr \<lparr>url_origin = base, url_pathname = href, url_search = [], url_hash = []\<rparr>
      else if href = ''/account?tab=1#top'' then
        Inr \<lparr>url_origin = base, url_pathname = ''/account'', url_search = ''?tab=1'',
             url_hash = ''#top''\<rparr>
      else if href = ''https://elsewhere.example/page'' then
        Inr \<lparr>url_origin = ''https://elsewhere.example'', url_pathname = ''/page'',
             url_search = [], url_hash = []\<rparr>
      else if href = ''https://ctzn.one//evil.example/x'' then
        Inr \<lparr>url_origin = ''https://ctzn.one'', url_pathname = ''//evil.example/x'',
             url_search = [], url_hash = []\<rparr>
      else if href = ''//evil.example/x'' then
        Inr \<lparr>url_origin = ''https://evil.example'', url_pathname = ''/x'',
             url_search = [], url_hash = []\<rparr>
      else Inl TypeError)"

text \<open>\<^verbatim>\<open>'hyper://<key>/ctzn.network/post/1'.split(DRIVE_KEY_REGEX)\<close> and the like.\<close>

definition example_split :: "string \<Rightarrow> string list" where
  "example_split s = (if take 8 s = ''hyper://'' then [''hyper://'', drop 72 s] else [s])"

section \<open>Properties\<close>

subsection \<open>What the patterns match\<close>

lemma canonicalize_slash: "canonicalize c = CHR ''/'' \<longleftrightarrow> c = CHR ''/''"
proof -
  have "u \<noteq> CHR ''/''" if "map_of upper_case c = Some u" for u
  proof -
    from that have "(c, u) \<in> set upper_case" by (rule map_of_SomeD)
    then have "u \<in> snd ` set upper_case" by force
    then show ?thesis by (auto simp: upper_case_def)
  qed
  moreover have "map_of upper_case CHR ''/'' = None"
    by (simp add: upper_case_def)
  ultimately show ?thesis
    by (auto simp: canonicalize_def split: option.splits)
qed

lemma canonicalize_at: "canonicalize c = CHR ''@'' \<longleftrightarrow> c = CHR ''@''"
proof -
  have "u \<noteq> CHR ''@''" if "map_of upper_case c = Some u" for u
  proof -
    from that have "(c, u) \<in> set upper_case" by (rule map_of_SomeD)
    then have "u \<in> snd ` set upper_case" by force
    then show ?thesis by (auto simp: upper_case_def)
  qed
  moreover have "map_of upper_case CHR ''@'' = None"
    by (simp add: upper_case_def)
  ultimately show ?thesis
    by (auto simp: canonicalize_def split: option.splits)
qed

lemma match_here_One: "match_here ic (One a # ps) s \<longleftrightarrow> (\<exists>c t. s = c # t \<and> atom_matches ic a c \<and> match_here ic ps t)"
  by (cases s) auto

lemma match_here_OneOrMore:
  "match_here ic (OneOrMore a # ps) s \<longleftrightarrow>
     (\<exists>x t. s = x @ t \<and> x \<noteq> [] \<and> (\<forall>c\<in>set x. atom_matches ic a c) \<and> match_here ic ps t)"
proof (induction s)
  case Nil
  then show ?case by simp
next
  case (Cons c cs)
  show ?case
  proof
    assume m: "match_here ic (OneOrMore a # ps) (c # cs)"
    then have ok: "atom_matches ic a c" by (simp split: if_splits)
    from m consider "match_here ic ps cs" | "match_here ic (OneOrMore a # ps) cs"
      by (auto split: if_splits)
    then show "\<exists>x t. c # cs = x @ t \<and> x \<noteq> [] \<and> (\<forall>c\<in>set x. atom_matches ic a c) \<and> match_here ic ps t"
    proof cases
      case 1
      with ok have "c # cs = [c] @ cs \<and> [c] \<noteq> [] \<and> (\<forall>d\<in>set [c]. atom_matches ic a d) \<and> match_here ic ps cs"
        by simp
      then show ?thesis by blast
    next
      case 2
      with Cons.IH obtain x t where xt: "cs = x @ t" "\<forall>d\<in>set x. atom_matches ic a d" "match_here ic ps t"
        by blast
      with ok have "c # cs = (c # x) @ t \<and> c # x \<noteq> [] \<and> (\<forall>d\<in>set (c # x). atom_matches ic a d) \<and> match_here ic ps t"
        by simp
      then show ?thesis by blast
    qed
  next
    assume "\<exists>x t. c # cs = x @ t \<and> x \<noteq> [] \<and> (\<forall>c\<in>set x. atom_matches ic a c) \<and> match_here ic ps t"
    then obtain x t where xt: "c # cs = x @ t" "x \<noteq> []" "\<forall>d\<in>set x. atom_matches ic a d" "match_here ic ps t"
      by blast
    then obtain x' where x: "x = c # x'" by (cases x) auto
    with xt have cs: "cs = x' @ t" and ok: "atom_matches ic a c" and rest: "\<forall>d\<in>set x'. atom_matches ic a d"
      by auto
    show "match_here ic (OneOrMore a # ps) (c # cs)"
    proof (cases "x' = []")
      case True
      with cs xt(4) ok show ?thesis by simp
    next
      case False
      with cs rest xt(4) Cons.IH have "match_here ic (OneOrMore a # ps) cs" by blast
      with ok show ?thesis by simp
    qed
  qed
qed

lemma match_from_iff: "match_from ic ps s \<longleftrightarrow> (\<exists>u t. s = u @ t \<and> match_here ic ps t)"
proof (induction s)
  case Nil
  then show ?case by simp
next
  case (Cons c cs)
  show ?case
  proof
    assume "match_from ic ps (c # cs)"
    then consider "match_here ic ps (c # cs)" | "match_from ic ps cs" by (auto split: if_splits)
    then show "\<exists>u t. c # cs = u @ t \<and> match_here ic ps t"
    proof cases
      case 1
      then have "c # cs = [] @ (c # cs) \<and> match_here ic ps (c # cs)" by simp
      then show ?thesis by blast
    next
      case 2
      with Cons.IH obtain u t where "cs = u @ t" "match_here ic ps t" by blast
      then have "c # cs = (c # u) @ t \<and> match_here ic ps t" by simp
      then show ?thesis by blast
    qed
  next
    assume "\<exists>u t. c # cs = u @ t \<and> match_here ic ps t"
    then obtain u t where ut: "c # cs = u @ t" "match_here ic ps t" by blast
    show "match_from ic ps (c # cs)"
    proof (cases u)
      case Nil
      with ut have "match_here ic ps (c # cs)" by simp
      then show ?thesis by simp
    next
      case (Cons d u')
      with ut have "cs = u' @ t" by simp
      with ut(2) Cons.IH have "match_from ic ps cs" by blast
      then show ?thesis by simp
    qed
  qed
qed

lemma match_here_prefix: "match_here ic (ps @ qs) s \<Longrightarrow> match_here ic ps s"
  by (induction ic ps s rule: match_here.induct) (auto split: if_splits)


lemma canonicalize_fixed:
  "canonicalize CHR ''/'' = CHR ''/''" "canonicalize CHR ''@'' = CHR ''@''"
  by (simp_all add: canonicalize_def upper_case_def)

lemma atom_slash: "atom_matches ic (Lit CHR ''/'') c \<longleftrightarrow> c = CHR ''/''"
  by (simp add: canonicalize_fixed canonicalize_slash)

lemma atom_at: "atom_matches ic (Lit CHR ''@'') c \<longleftrightarrow> c = CHR ''@''"
  by (simp add: canonicalize_fixed canonicalize_at)

lemma atom_not_slash: "atom_matches ic (NotChar CHR ''/'') c \<longleftrightarrow> c \<noteq> CHR ''/''"
  by (simp add: canonicalize_fixed canonicalize_slash)

lemma all_not_slash: "(\<forall>c\<in>set x. c \<noteq> CHR ''/'') \<longleftrightarrow> CHR ''/'' \<notin> set x"
  by blast

lemma match_here_address_unfold:
  "match_here ic (lits ''/'' @ address_token) t \<longleftrightarrow>
      (\<exists>c t1. t = c # t1 \<and> c = CHR ''/'' \<and>
        (\<exists>x t2. t1 = x @ t2 \<and> x \<noteq> [] \<and> CHR ''/'' \<notin> set x \<and>
          (\<exists>d t3. t2 = d # t3 \<and> d = CHR ''@'' \<and>
            (\<exists>y v. t3 = y @ v \<and> y \<noteq> [] \<and> CHR ''/'' \<notin> set y))))"
    unfolding lits_def address_token_def
    by (simp only: list.map append.simps match_here_One match_here_OneOrMore
        atom_slash atom_at atom_not_slash all_not_slash match_here.simps(1) simp_thms)


lemma match_here_address:
  "match_here ic (lits ''/'' @ address_token) t \<longleftrightarrow>
     (\<exists>x y v. t = ''/'' @ x @ ''@'' @ y @ v \<and> x \<noteq> [] \<and> y \<noteq> []
        \<and> CHR ''/'' \<notin> set x \<and> CHR ''/'' \<notin> set y)"
proof
  assume "match_here ic (lits ''/'' @ address_token) t"
  then obtain x y v where "t = CHR ''/'' # x @ CHR ''@'' # y @ v" "x \<noteq> []" "y \<noteq> []"
    "CHR ''/'' \<notin> set x" "CHR ''/'' \<notin> set y"
    unfolding match_here_address_unfold by auto
  then have "t = ''/'' @ x @ ''@'' @ y @ v \<and> x \<noteq> [] \<and> y \<noteq> []
        \<and> CHR ''/'' \<notin> set x \<and> CHR ''/'' \<notin> set y"
    by simp
  then show "\<exists>x y v. t = ''/'' @ x @ ''@'' @ y @ v \<and> x \<noteq> [] \<and> y \<noteq> []
        \<and> CHR ''/'' \<notin> set x \<and> CHR ''/'' \<notin> set y"
    by (intro exI)
next
  assume "\<exists>x y v. t = ''/'' @ x @ ''@'' @ y @ v \<and> x \<noteq> [] \<and> y \<noteq> []
        \<and> CHR ''/'' \<notin> set x \<and> CHR ''/'' \<notin> set y"
  then obtain x y v where t: "t = CHR ''/'' # x @ CHR ''@'' # y @ v" and ne: "x \<noteq> []" "y \<noteq> []"
    and ns: "CHR ''/'' \<notin> set x" "CHR ''/'' \<notin> set y"
    by auto
  from ne ns have "\<exists>y' v'. y @ v = y' @ v' \<and> y' \<noteq> [] \<and> CHR ''/'' \<notin> set y'"
    by blast
  then have "\<exists>d t3. CHR ''@'' # y @ v = d # t3 \<and> d = CHR ''@'' \<and>
            (\<exists>y v. t3 = y @ v \<and> y \<noteq> [] \<and> CHR ''/'' \<notin> set y)"
    by simp
  with ne ns have "\<exists>x' t2. x @ CHR ''@'' # y @ v = x' @ t2 \<and> x' \<noteq> [] \<and> CHR ''/'' \<notin> set x' \<and>
          (\<exists>d t3. t2 = d # t3 \<and> d = CHR ''@'' \<and>
            (\<exists>y v. t3 = y @ v \<and> y \<noteq> [] \<and> CHR ''/'' \<notin> set y))"
    by blast
  with t show "match_here ic (lits ''/'' @ address_token) t"
    unfolding match_here_address_unfold by simp
qed

lemma test_USER_PATH_REGEX:
  "test USER_PATH_REGEX p \<longleftrightarrow>
     (\<exists>u x y v. p = u @ ''/'' @ x @ ''@'' @ y @ v \<and> x \<noteq> [] \<and> y \<noteq> []
        \<and> CHR ''/'' \<notin> set x \<and> CHR ''/'' \<notin> set y)"
proof -
  have "test USER_PATH_REGEX p \<longleftrightarrow>
    (\<exists>u t. p = u @ t \<and> (\<exists>x y v. t = ''/'' @ x @ ''@'' @ y @ v \<and> x \<noteq> [] \<and> y \<noteq> []
        \<and> CHR ''/'' \<notin> set x \<and> CHR ''/'' \<notin> set y))"
    unfolding test_def USER_PATH_REGEX_def
    by (simp only: regexp.simps match_from_iff match_here_address)
  also have "\<dots> \<longleftrightarrow> (\<exists>u x y v. p = u @ ''/'' @ x @ ''@'' @ y @ v \<and> x \<noteq> [] \<and> y \<noteq> []
        \<and> CHR ''/'' \<notin> set x \<and> CHR ''/'' \<notin> set y)"
    by blast
  finally show ?thesis .
qed


lemma test_prefix:
  assumes "match_from ic (lits ''/'' @ address_token @ qs) p"
  shows "test USER_PATH_REGEX p"
proof -
  from assms obtain u t where ut: "p = u @ t" "match_here ic ((lits ''/'' @ address_token) @ qs) t"
    by (auto simp: match_from_iff)
  then have "match_here ic (lits ''/'' @ address_token) t"
    by (blast dest: match_here_prefix)
  then have "match_here False (lits ''/'' @ address_token) t"
    by (simp only: match_here_address)
  with ut(1) have "match_from False (lits ''/'' @ address_token) p"
    unfolding match_from_iff by blast
  then show ?thesis
    unfolding test_def USER_PATH_REGEX_def by (simp only: regexp.simps)
qed

lemma test_POST_USER:
  assumes "test POST_PATH_REGEX p"
  shows "test USER_PATH_REGEX p"
proof -
  from assms have "match_from True (lits ''/'' @ address_token @ lits ''/ctzn'' @ [One Dot]
      @ lits ''network/post/'' @ [OneOrMore (NotChar CHR ''/'')]) p"
    by (simp only: test_def POST_PATH_REGEX_def regexp.select_convs)
  then show ?thesis by (rule test_prefix)
qed

lemma test_COMMENT_USER:
  assumes "test COMMENT_PATH_REGEX p"
  shows "test USER_PATH_REGEX p"
proof -
  from assms have "match_from True (lits ''/'' @ address_token @ lits ''/ctzn'' @ [One Dot]
      @ lits ''network/comment/'' @ [OneOrMore (NotChar CHR ''/'')]) p"
    by (simp only: test_def COMMENT_PATH_REGEX_def regexp.select_convs)
  then show ?thesis by (rule test_prefix)
qed

lemma test_USER_at: "test USER_PATH_REGEX p \<Longrightarrow> CHR ''@'' \<in> set p"
  by (auto simp: test_USER_PATH_REGEX)


lemma at_not_top_level:
  assumes "CHR ''@'' \<in> set p"
  shows "p \<noteq> ''/''" "p \<noteq> ''/index''" "p \<noteq> ''/index.html''" "p \<noteq> ''/forgot-password''"
    "p \<noteq> ''/notifications''" "p \<noteq> ''/communities''" "p \<noteq> ''/account''"
    "p \<noteq> ''/search''" "p \<noteq> ''/signup''"
  using assms by auto

lemma render_not_top_level:
  assumes "\<not> isLoading a"
    and "currentPath a \<noteq> ''/''" "currentPath a \<noteq> ''/index''" "currentPath a \<noteq> ''/index.html''"
    and "currentPath a \<noteq> ''/forgot-password''" "currentPath a \<noteq> ''/notifications''"
    and "currentPath a \<noteq> ''/communities''" "currentPath a \<noteq> ''/account''"
    and "currentPath a \<noteq> ''/search''" "currentPath a \<noteq> ''/signup''"
  shows "render a =
     (if test POST_PATH_REGEX (currentPath a) then PostView (currentPath a)
      else if test COMMENT_PATH_REGEX (currentPath a) then PostView (currentPath a)
      else if test USER_PATH_REGEX (currentPath a) then UserView (currentPath a)
      else NotFound)"
  unfolding render_def using assms by (simp only: if_False simp_thms)

text \<open>
  Every path \<^verbatim>\<open>/x@y/ctzn.network/post/i\<close> or \<^verbatim>\<open>/x@y/ctzn.network/comment/i\<close>, with
  \<open>x\<close>, \<open>y\<close> and \<open>i\<close> non-empty and free of slashes, matches its thread pattern.
\<close>

lemma match_lits: "match_here ic ps s \<Longrightarrow> match_here ic (lits k @ ps) (k @ s)"
  by (induction k) (simp_all add: lits_def)

lemma match_OneOrMore_run:
  assumes "x \<noteq> []" and "\<forall>c\<in>set x. atom_matches ic a c" and "match_here ic ps t"
  shows "match_here ic (OneOrMore a # ps) (x @ t)"
  using assms unfolding match_here_OneOrMore by blast

lemma run_not_slash:
  "CHR ''/'' \<notin> set x \<Longrightarrow> \<forall>c\<in>set x. atom_matches ic (NotChar CHR ''/'') c"
  unfolding atom_not_slash by blast

lemma match_here_imp_from: "match_here ic ps s \<Longrightarrow> match_from ic ps s"
  by (cases s) simp_all

lemma thread_tail_matches:
  assumes "i \<noteq> []" and "CHR ''/'' \<notin> set i"
  shows "match_here True (lits ''/ctzn'' @ [One Dot] @ lits k @ [OneOrMore (NotChar CHR ''/'')])
           (''/ctzn.'' @ k @ i)"
proof -
  from assms have "match_here True [OneOrMore (NotChar CHR ''/'')] (i @ [])"
    by (intro match_OneOrMore_run run_not_slash) simp_all
  then have "match_here True (lits k @ [OneOrMore (NotChar CHR ''/'')]) (k @ i)"
    using match_lits by fastforce
  then have "match_here True ([One Dot] @ lits k @ [OneOrMore (NotChar CHR ''/'')]) (''.'' @ k @ i)"
    by (simp add: lineTerminator_def)
  then have "match_here True (lits ''/ctzn'' @ [One Dot] @ lits k @ [OneOrMore (NotChar CHR ''/'')])
      (''/ctzn'' @ ''.'' @ k @ i)"
    by (rule match_lits)
  then show ?thesis by simp
qed

lemma address_then:
  assumes "x \<noteq> []" "y \<noteq> []" "CHR ''/'' \<notin> set x" "CHR ''/'' \<notin> set y"
    and "match_here ic ps t"
  shows "match_here ic (lits ''/'' @ address_token @ ps) (''/'' @ x @ ''@'' @ y @ t)"
proof -
  from assms have "match_here ic (OneOrMore (NotChar CHR ''/'') # ps) (y @ t)"
    by (intro match_OneOrMore_run run_not_slash)
  then have "match_here ic (One (Lit CHR ''@'') # OneOrMore (NotChar CHR ''/'') # ps) (CHR ''@'' # y @ t)"
    by (simp add: atom_at)
  with assms have "match_here ic (OneOrMore (NotChar CHR ''/'') # One (Lit CHR ''@'')
      # OneOrMore (NotChar CHR ''/'') # ps) (x @ CHR ''@'' # y @ t)"
    by (intro match_OneOrMore_run run_not_slash)
  then show ?thesis
    by (simp add: lits_def address_token_def atom_slash)
qed

lemma thread_shaped_paths_match:
  assumes "x \<noteq> []" "y \<noteq> []" "CHR ''/'' \<notin> set x" "CHR ''/'' \<notin> set y"
    and "i \<noteq> []" "CHR ''/'' \<notin> set i"
  shows "test POST_PATH_REGEX (''/'' @ x @ ''@'' @ y @ ''/ctzn.network/post/'' @ i)"
    and "test COMMENT_PATH_REGEX (''/'' @ x @ ''@'' @ y @ ''/ctzn.network/comment/'' @ i)"
proof -
  have "match_here True (lits ''/'' @ address_token @ lits ''/ctzn'' @ [One Dot]
           @ lits k @ [OneOrMore (NotChar CHR ''/'')])
          (''/'' @ x @ ''@'' @ y @ ''/ctzn.'' @ k @ i)" for k
    using assms by (intro address_then thread_tail_matches)
  then have "match_from True (lits ''/'' @ address_token @ lits ''/ctzn'' @ [One Dot]
           @ lits k @ [OneOrMore (NotChar CHR ''/'')])
          (''/'' @ x @ ''@'' @ y @ ''/ctzn.'' @ k @ i)" for k
    by (rule match_here_imp_from)
  from this [of "''network/post/''"] this [of "''network/comment/''"]
  show "test POST_PATH_REGEX (''/'' @ x @ ''@'' @ y @ ''/ctzn.network/post/'' @ i)"
    and "test COMMENT_PATH_REGEX (''/'' @ x @ ''@'' @ y @ ''/ctzn.network/comment/'' @ i)"
    by (simp_all add: test_def POST_PATH_REGEX_def COMMENT_PATH_REGEX_def)
qed

subsection \<open>Rendering\<close>

lemma thread_pattern_before_profile:
  assumes "\<not> isLoading a"
    and "test POST_PATH_REGEX (currentPath a) \<or> test COMMENT_PATH_REGEX (currentPath a)"
  shows "render a = PostView (currentPath a) \<and> render a \<noteq> UserView (currentPath a)
         \<and> test USER_PATH_REGEX (currentPath a)"
proof -
  from assms(2) have user: "test USER_PATH_REGEX (currentPath a)"
    by (blast intro: test_POST_USER test_COMMENT_USER)
  then have "CHR ''@'' \<in> set (currentPath a)" by (rule test_USER_at)
  note top = at_not_top_level [OF this]
  from assms(2) have "render a = PostView (currentPath a)"
    unfolding render_not_top_level [OF assms(1) top] by auto
  with user show ?thesis by simp
qed

text \<open>
  C2, as the code has it. Once loading is over, every path
  \<^verbatim>\<open>/x@y/ctzn.network/post/i\<close> or \<^verbatim>\<open>/x@y/ctzn.network/comment/i\<close>, where \<open>x\<close>, \<open>y\<close>
  and \<open>i\<close> are non-empty and hold no slash, is rendered as the thread view
  \<^verbatim>\<open>ctzn-post-view\<close> carrying the path and never as the profile view, although the
  looser profile pattern matches it too: the two thread patterns are tested first. The
  identity must have a character on each side of its \<open>@\<close>.
\<close>

theorem thread_shape_before_profile:
  assumes "\<not> isLoading a"
    and "x \<noteq> []" "y \<noteq> []" "CHR ''/'' \<notin> set x" "CHR ''/'' \<notin> set y"
    and "i \<noteq> []" "CHR ''/'' \<notin> set i"
    and "currentPath a = ''/'' @ x @ ''@'' @ y @ ''/ctzn.network/post/'' @ i
       \<or> currentPath a = ''/'' @ x @ ''@'' @ y @ ''/ctzn.network/comment/'' @ i"
  shows "render a = PostView (currentPath a) \<and> render a \<noteq> UserView (currentPath a)
         \<and> test USER_PATH_REGEX (currentPath a)"
proof -
  from assms(8) thread_shaped_paths_match [OF assms(2-7)]
  have "test POST_PATH_REGEX (currentPath a) \<or> test COMMENT_PATH_REGEX (currentPath a)"
    by auto
  with assms(1) show ?thesis by (rule thread_pattern_before_profile)
qed

text \<open>
  The path of the specification, \<^verbatim>\<open>/a@b/ctzn.network/post/123\<close>, and a comment
  thread.
\<close>

theorem thread_shape_before_profile_witness:
  "render \<lparr>isLoading = False, currentPath = ''/a@b/ctzn.network/post/123'',
           scrollPositionCache = None\<rparr>
     = PostView ''/a@b/ctzn.network/post/123''
   \<and> test USER_PATH_REGEX ''/a@b/ctzn.network/post/123''
   \<and> render \<lparr>isLoading = False, currentPath = ''/a@b/ctzn.network/comment/7'',
           scrollPositionCache = None\<rparr>
     = PostView ''/a@b/ctzn.network/comment/7''"
  using thread_shape_before_profile
      [of "\<lparr>isLoading = False, currentPath = ''/a@b/ctzn.network/post/123'',
            scrollPositionCache = None\<rparr>" "''a''" "''b''" "''123''"]
    thread_shape_before_profile
      [of "\<lparr>isLoading = False, currentPath = ''/a@b/ctzn.network/comment/7'',
            scrollPositionCache = None\<rparr>" "''a''" "''b''" "''7''"]
  by simp

text \<open>
  The claim C2 of the specification fails at \<^verbatim>\<open>/@b/ctzn.network/post/123\<close>: the
  identity \<^verbatim>\<open>@b\<close> holds an \<open>@\<close>, and the path matches none of the three patterns, so
  it is rendered as the not-found page, not as the thread view.
\<close>

theorem thread_identity_counterexample:
  "CHR ''@'' \<in> set ''@b''
   \<and> render \<lparr>isLoading = False, currentPath = ''/'' @ ''@b'' @ ''/ctzn.network/post/'' @ ''123'',
           scrollPositionCache = None\<rparr>
     = NotFound"
  by (simp add: render_def test_def POST_PATH_REGEX_def COMMENT_PATH_REGEX_def
      USER_PATH_REGEX_def lits_def address_token_def lineTerminator_def canonicalize_def
      upper_case_def)

text \<open>
  C3, as the code has it. Once loading is over, a path that is none of the top-level
  paths and matches neither thread pattern is rendered as the profile view exactly when
  it holds, at any place, a slash followed by an address-like token: a run \<open>x\<close> without
  slash, an \<open>@\<close> and a run \<open>y\<close> without slash, both runs non-empty. Otherwise it is
  rendered as the not-found page. \<^verbatim>\<open>USER_PATH_REGEX\<close> is not anchored, so the token may
  stand in any segment, not only in the first.
\<close>

theorem profile_pattern_unanchored:
  assumes "\<not> isLoading a"
    and "currentPath a \<noteq> ''/''" "currentPath a \<noteq> ''/index''" "currentPath a \<noteq> ''/index.html''"
    and "currentPath a \<noteq> ''/forgot-password''" "currentPath a \<noteq> ''/notifications''"
    and "currentPath a \<noteq> ''/communities''" "currentPath a \<noteq> ''/account''"
    and "currentPath a \<noteq> ''/search''" "currentPath a \<noteq> ''/signup''"
    and "\<not> test POST_PATH_REGEX (currentPath a)" "\<not> test COMMENT_PATH_REGEX (currentPath a)"
  shows "(render a = UserView (currentPath a) \<longleftrightarrow>
            (\<exists>u x y v. currentPath a = u @ ''/'' @ x @ ''@'' @ y @ v \<and> x \<noteq> [] \<and> y \<noteq> []
               \<and> CHR ''/'' \<notin> set x \<and> CHR ''/'' \<notin> set y))
         \<and> (render a \<noteq> UserView (currentPath a) \<longrightarrow> render a = NotFound)"
  unfolding render_not_top_level [OF assms(1-10)] test_USER_PATH_REGEX [symmetric]
  using assms(11,12) by simp

text \<open>
  The path \<^verbatim>\<open>/foo/bar@baz\<close> is rendered as the profile view, and the theorem gives the
  place of its token.
\<close>

theorem profile_pattern_unanchored_witness:
  "render \<lparr>isLoading = False, currentPath = ''/foo/bar@baz'', scrollPositionCache = None\<rparr>
     = UserView ''/foo/bar@baz''
   \<and> (\<exists>u x y v. ''/foo/bar@baz'' = u @ ''/'' @ x @ ''@'' @ y @ v \<and> x \<noteq> [] \<and> y \<noteq> []
               \<and> CHR ''/'' \<notin> set x \<and> CHR ''/'' \<notin> set y)"
proof -
  let ?a = "\<lparr>isLoading = False, currentPath = ''/foo/bar@baz'', scrollPositionCache = None\<rparr>"
  have r: "render ?a = UserView ''/foo/bar@baz''"
    and t: "\<not> test POST_PATH_REGEX ''/foo/bar@baz''" "\<not> test COMMENT_PATH_REGEX ''/foo/bar@baz''"
    by (simp_all add: render_def test_def POST_PATH_REGEX_def COMMENT_PATH_REGEX_def
        USER_PATH_REGEX_def lits_def address_token_def lineTerminator_def canonicalize_def
        upper_case_def)
  have "(render ?a = UserView (currentPath ?a) \<longleftrightarrow>
            (\<exists>u x y v. currentPath ?a = u @ ''/'' @ x @ ''@'' @ y @ v \<and> x \<noteq> [] \<and> y \<noteq> []
               \<and> CHR ''/'' \<notin> set x \<and> CHR ''/'' \<notin> set y))"
    using t by (intro conjunct1 [OF profile_pattern_unanchored [of ?a]]) simp_all
  with r show ?thesis by (simp only: app.select_convs simp_thms)
qed

text \<open>
  The claim C3 of the specification fails at \<^verbatim>\<open>/foo/bar@baz\<close>: the first segment
  \<^verbatim>\<open>foo\<close> holds no \<open>@\<close>, the path is no top-level path and no thread path, and it
  is rendered as the profile view, not as the not-found page.
\<close>

theorem profile_first_segment_counterexample:
  "render \<lparr>isLoading = False, currentPath = ''/foo/bar@baz'', scrollPositionCache = None\<rparr>
     = UserView ''/foo/bar@baz''
   \<and> CHR ''@'' \<notin> set (first_segment ''/foo/bar@baz'')
   \<and> \<not> test POST_PATH_REGEX ''/foo/bar@baz'' \<and> \<not> test COMMENT_PATH_REGEX ''/foo/bar@baz''"
  by (simp add: render_def first_segment_def test_def POST_PATH_REGEX_def COMMENT_PATH_REGEX_def
      USER_PATH_REGEX_def lits_def address_token_def lineTerminator_def canonicalize_def upper_case_def)

subsection \<open>Navigation and the scroll position cache\<close>

lemma restorations_append: "restorations (xs @ ys) = restorations xs @ restorations ys"
  by (induction xs rule: restorations.induct) simp_all

lemmas outcome_defs = state_after_def effects_of_def thrown_by_def

lemma anchor_pages_never_throw:
  "\<not> pushState_throws URL_new b ''/''" "\<not> pushState_throws URL_new b ''/notifications''"
  by (simp_all add: pushState_throws_def path_absolute_def strip_tab_newline_def)

lemma navigateTo_state:
  "state_after (navigateTo URL_new b p a) =
     a\<lparr>currentPath := (if pushState_throws URL_new b p then currentPath a else p),
       scrollPositionCache :=
         (if currentPath a = ''/'' \<or> currentPath a = ''/notifications''
          then Some \<lparr>pathname = currentPath a, scrollY = window_scrollY b\<rparr>
          else scrollPositionCache a)\<rparr>"
  by (simp add: navigateTo_def Let_def outcome_defs)

lemma navigateTo_restorations:
  "restorations (effects_of (navigateTo URL_new b p a)) =
     (if pushState_throws URL_new b p then []
      else case scrollPositionCache a of
        None \<Rightarrow> []
      | Some c \<Rightarrow> if pathname c = p then [scrollY c] else [])"
  by (simp add: navigateTo_def Let_def outcome_defs restorations_append split: option.splits)

text \<open>
  C1, as the code has it. Start with \<^verbatim>\<open>currentPath = '/notifications'\<close> and call
  \<^verbatim>\<open>navigateTo('/notifications')\<close>, \<^verbatim>\<open>navigateTo('/')\<close> and
  \<^verbatim>\<open>navigateTo('/notifications')\<close>, the window standing at any offset at each call.
  The first call captures its offset for \<^verbatim>\<open>/notifications\<close>; the second call leaves
  \<^verbatim>\<open>/notifications\<close> again and captures its own offset over it; the third call
  schedules exactly one restoration, to the offset the second call captured, because it
  reads the cache before its own departure from \<^verbatim>\<open>/\<close> overwrites the slot.
\<close>

theorem round_trip_restores_latest_capture:
  assumes "currentPath a = ''/notifications''"
  shows "scrollPositionCache (state_after (navigateTo URL_new b1 ''/notifications'' a))
           = Some \<lparr>pathname = ''/notifications'', scrollY = window_scrollY b1\<rparr>
       \<and> scrollPositionCache (state_after (navigateTo URL_new b2 ''/''
            (state_after (navigateTo URL_new b1 ''/notifications'' a))))
           = Some \<lparr>pathname = ''/notifications'', scrollY = window_scrollY b2\<rparr>
       \<and> restorations (effects_of (navigateTo URL_new b3 ''/notifications''
            (state_after (navigateTo URL_new b2 ''/''
              (state_after (navigateTo URL_new b1 ''/notifications'' a))))))
           = [window_scrollY b2]
       \<and> scrollPositionCache (state_after (navigateTo URL_new b3 ''/notifications''
            (state_after (navigateTo URL_new b2 ''/''
              (state_after (navigateTo URL_new b1 ''/notifications'' a))))))
           = Some \<lparr>pathname = ''/'', scrollY = window_scrollY b3\<rparr>"
  using assms by (simp add: navigateTo_state navigateTo_restorations anchor_pages_never_throw)

text \<open>The offsets 10, 20 and 30 at the three calls: the restoration goes to 20.\<close>

theorem round_trip_restores_latest_capture_witness:
  "restorations (effects_of (navigateTo example_URL (example_browser ''/'' 30) ''/notifications''
     (state_after (navigateTo example_URL (example_browser ''/notifications'' 20) ''/''
       (state_after (navigateTo example_URL (example_browser ''/notifications'' 10)
         ''/notifications''
         \<lparr>isLoading = False, currentPath = ''/notifications'',
          scrollPositionCache = None\<rparr>))))))
   = [20]"
  using round_trip_restores_latest_capture
    [of "\<lparr>isLoading = False, currentPath = ''/notifications'', scrollPositionCache = None\<rparr>"
        example_URL
        "example_browser ''/notifications'' 10" "example_browser ''/notifications'' 20"
        "example_browser ''/'' 30"]
  by (simp add: example_browser_def)

text \<open>
  With the same offsets the first call captured 10 when it left \<^verbatim>\<open>/notifications\<close>,
  and the third call restores to 20, not to 10.
\<close>

theorem round_trip_first_capture_counterexample:
  "scrollPositionCache (state_after (navigateTo example_URL
         (example_browser ''/notifications'' 10) ''/notifications''
         \<lparr>isLoading = False, currentPath = ''/notifications'', scrollPositionCache = None\<rparr>))
     = Some \<lparr>pathname = ''/notifications'', scrollY = 10\<rparr>
   \<and> restorations (effects_of (navigateTo example_URL (example_browser ''/'' 30) ''/notifications''
     (state_after (navigateTo example_URL (example_browser ''/notifications'' 20) ''/''
       (state_after (navigateTo example_URL (example_browser ''/notifications'' 10)
         ''/notifications''
         \<lparr>isLoading = False, currentPath = ''/notifications'',
          scrollPositionCache = None\<rparr>))))))
     = [20]
   \<and> restorations (effects_of (navigateTo example_URL (example_browser ''/'' 30) ''/notifications''
     (state_after (navigateTo example_URL (example_browser ''/notifications'' 20) ''/''
       (state_after (navigateTo example_URL (example_browser ''/notifications'' 10)
         ''/notifications''
         \<lparr>isLoading = False, currentPath = ''/notifications'',
          scrollPositionCache = None\<rparr>))))))
     \<noteq> [10]"
  by (simp add: navigateTo_state navigateTo_restorations anchor_pages_never_throw
      example_browser_def)

subsection \<open>What every handler preserves\<close>

lemma navigateTo_cache_inv:
  "cache_inv a \<Longrightarrow> cache_inv (state_after (navigateTo URL_new b p a))"
  by (auto simp: navigateTo_state cache_inv_def)

lemma navigateTo_isLoading:
  "isLoading (state_after (navigateTo URL_new b p a)) = isLoading a"
  by (simp add: navigateTo_state)

lemma onGlobalClick_state:
  "state_after (onGlobalClick URL_new b e a) = a
   \<or> (\<exists>p. state_after (onGlobalClick URL_new b e a)
            = state_after (navigateTo URL_new b p a))"
  by (auto simp: onGlobalClick_def outcome_defs split: option.splits sum.splits)

lemma handle_state:
  "state_after (handle URL_new split_DRIVE_KEY b ev a) = a
   \<or> (\<exists>p. state_after (handle URL_new split_DRIVE_KEY b ev a)
            = state_after (navigateTo URL_new b p a))
   \<or> state_after (handle URL_new split_DRIVE_KEY b ev a) = a\<lparr>currentPath := location_pathname b\<rparr>
   \<or> state_after (handle URL_new split_DRIVE_KEY b ev a) = a\<lparr>isLoading := False\<rparr>"
proof (cases ev)
  case (Click e)
  with onGlobalClick_state [of URL_new b e a] show ?thesis by auto
next
  case (ViewThread subject)
  then show ?thesis by (auto simp: onViewThread_def outcome_defs Let_def)
next
  case (NavigateTo u)
  then show ?thesis by (auto simp: onNavigateTo_def outcome_defs)
next
  case (Popstate st)
  then show ?thesis
    by (auto simp: onHistoryPopstate_def outcome_defs Let_def split: history_state.splits option.splits)
next
  case (SetupSettled r)
  then show ?thesis by (simp add: load_def outcome_defs)
qed

lemma handle_cache_inv:
  "cache_inv a \<Longrightarrow> cache_inv (state_after (handle URL_new split_DRIVE_KEY b ev a))"
  using handle_state [of URL_new split_DRIVE_KEY b ev a]
  by (auto simp: navigateTo_cache_inv) (simp_all add: cache_inv_def)

lemma handle_isLoading:
  "\<not> isLoading a \<Longrightarrow> \<not> isLoading (state_after (handle URL_new split_DRIVE_KEY b ev a))"
  using handle_state [of URL_new split_DRIVE_KEY b ev a]
  by (auto simp: navigateTo_isLoading)

lemma run_cache_inv:
  "cache_inv a \<Longrightarrow> cache_inv (run URL_new split_DRIVE_KEY evs a)"
  by (induction evs arbitrary: a) (auto simp: handle_cache_inv)

lemma run_isLoading:
  "\<not> isLoading a \<Longrightarrow> \<not> isLoading (run URL_new split_DRIVE_KEY evs a)"
  by (induction evs arbitrary: a) (auto simp: handle_isLoading)

text \<open>
  C6. The cache holds nothing or the position of \<^verbatim>\<open>/\<close> or \<^verbatim>\<open>/notifications\<close>: this
  holds after the constructor and after any sequence of events, every handler preserves
  it, and a \<^verbatim>\<open>navigateTo\<close> that leaves any other page does not touch the cache.
\<close>

theorem cache_only_for_anchor_pages:
  "cache_inv (run URL_new split_DRIVE_KEY evs (CtznApp_constructor b0))
   \<and> (cache_inv a \<longrightarrow> cache_inv (state_after (handle URL_new split_DRIVE_KEY b ev a)))
   \<and> (currentPath a \<noteq> ''/'' \<and> currentPath a \<noteq> ''/notifications'' \<longrightarrow>
        scrollPositionCache (state_after (navigateTo URL_new b p a)) = scrollPositionCache a)"
proof -
  have "cache_inv (CtznApp_constructor b0)"
    by (simp add: cache_inv_def CtznApp_constructor_def)
  then have "cache_inv (run URL_new split_DRIVE_KEY evs (CtznApp_constructor b0))"
    by (rule run_cache_inv)
  then show ?thesis
    by (simp add: handle_cache_inv navigateTo_state)
qed

theorem cache_only_for_anchor_pages_witness:
  "cache_inv (run example_URL example_split
      [(example_browser ''/'' 40, NavigateTo ''/account''),
       (example_browser ''/account'' 5, NavigateTo ''/notifications'')]
      (CtznApp_constructor (example_browser ''/'' 0)))
   \<and> cache_inv (state_after (handle example_URL example_split (example_browser ''/account'' 5)
        (NavigateTo ''/notifications'')
        \<lparr>isLoading = False, currentPath = ''/account'',
         scrollPositionCache = Some \<lparr>pathname = ''/'', scrollY = 40\<rparr>\<rparr>))
   \<and> scrollPositionCache (state_after (navigateTo example_URL (example_browser ''/account'' 5)
        ''/notifications''
        \<lparr>isLoading = False, currentPath = ''/account'',
         scrollPositionCache = Some \<lparr>pathname = ''/'', scrollY = 40\<rparr>\<rparr>))
       = Some \<lparr>pathname = ''/'', scrollY = 40\<rparr>"
  using cache_only_for_anchor_pages [of example_URL example_split
      "[(example_browser ''/'' 40, NavigateTo ''/account''),
        (example_browser ''/account'' 5, NavigateTo ''/notifications'')]"
      "example_browser ''/'' 0"
      "\<lparr>isLoading = False, currentPath = ''/account'',
        scrollPositionCache = Some \<lparr>pathname = ''/'', scrollY = 40\<rparr>\<rparr>"
      "example_browser ''/account'' 5" "NavigateTo ''/notifications''" "''/notifications''"]
  by (simp add: cache_inv_def)

text \<open>
  C9. The consume step at the end of \<^verbatim>\<open>navigateTo\<close> yields the cached offset only
  when the record that the cache held on entry has a \<^verbatim>\<open>pathname\<close> equal to the
  argument, as strings and without any normalisation, and nothing otherwise, also when
  the cache was empty. This holds in every state where the cache holds nothing or an
  anchor page, so in every state the component can reach, and for every argument that
  \<^verbatim>\<open>pushState\<close> accepts; in any state at all, a restoration that is scheduled is the
  offset of a cached record with exactly the argument as its \<^verbatim>\<open>pathname\<close>.
\<close>

theorem consume_exact:
  "(cache_inv a \<or> \<not> pushState_throws URL_new b p \<longrightarrow>
      restorations (effects_of (navigateTo URL_new b p a)) =
        (case scrollPositionCache a of
           None \<Rightarrow> []
         | Some c \<Rightarrow> if pathname c = p then [scrollY c] else []))
   \<and> restorations (effects_of (navigateTo URL_new b p
        (run URL_new split_DRIVE_KEY evs (CtznApp_constructor b0)))) =
        (case scrollPositionCache (run URL_new split_DRIVE_KEY evs (CtznApp_constructor b0)) of
           None \<Rightarrow> []
         | Some c \<Rightarrow> if pathname c = p then [scrollY c] else [])
   \<and> (\<forall>y. y \<in> set (restorations (effects_of (navigateTo URL_new b p a))) \<longrightarrow>
          scrollPositionCache a = Some \<lparr>pathname = p, scrollY = y\<rparr>)"
proof -
  have inv: "restorations (effects_of (navigateTo URL_new b p s)) =
        (case scrollPositionCache s of
           None \<Rightarrow> []
         | Some c \<Rightarrow> if pathname c = p then [scrollY c] else [])"
    if "cache_inv s \<or> \<not> pushState_throws URL_new b p" for s
    using that anchor_pages_never_throw [of URL_new b]
    by (auto simp: navigateTo_restorations cache_inv_def split: option.splits)
  have "cache_inv (CtznApp_constructor b0)"
    by (simp add: cache_inv_def CtznApp_constructor_def)
  then have "cache_inv (run URL_new split_DRIVE_KEY evs (CtznApp_constructor b0))"
    by (rule run_cache_inv)
  then have reach: "restorations (effects_of (navigateTo URL_new b p
        (run URL_new split_DRIVE_KEY evs (CtznApp_constructor b0)))) =
        (case scrollPositionCache (run URL_new split_DRIVE_KEY evs (CtznApp_constructor b0)) of
           None \<Rightarrow> []
         | Some c \<Rightarrow> if pathname c = p then [scrollY c] else [])"
    by (intro inv) simp
  have only: "scrollPositionCache a = Some \<lparr>pathname = p, scrollY = y\<rparr>"
    if "y \<in> set (restorations (effects_of (navigateTo URL_new b p a)))" for y
    using that by (auto simp: navigateTo_restorations split: option.splits if_splits)
  from inv [of a] reach only show ?thesis by blast
qed

text \<open>
  A cached \<^verbatim>\<open>/notifications\<close> is consumed by \<^verbatim>\<open>/notifications\<close>, not by
  \<^verbatim>\<open>/notifications/\<close>, and an empty cache yields nothing for \<^verbatim>\<open>/x\<close>.
\<close>

theorem consume_exact_witness:
  "restorations (effects_of (navigateTo example_URL (example_browser ''/account'' 0)
      ''/notifications''
      \<lparr>isLoading = False, currentPath = ''/account'',
       scrollPositionCache = Some \<lparr>pathname = ''/notifications'', scrollY = 7\<rparr>\<rparr>)) = [7]
   \<and> restorations (effects_of (navigateTo example_URL (example_browser ''/account'' 0)
      ''/notifications/''
      \<lparr>isLoading = False, currentPath = ''/account'',
       scrollPositionCache = Some \<lparr>pathname = ''/notifications'', scrollY = 7\<rparr>\<rparr>)) = []
   \<and> restorations (effects_of (navigateTo example_URL (example_browser ''/account'' 0) ''/x''
      \<lparr>isLoading = False, currentPath = ''/account'', scrollPositionCache = None\<rparr>)) = []"
  using consume_exact [of
      "\<lparr>isLoading = False, currentPath = ''/account'',
       scrollPositionCache = Some \<lparr>pathname = ''/notifications'', scrollY = 7\<rparr>\<rparr>"
      example_URL "example_browser ''/account'' 0" "''/notifications''"]
    consume_exact [of
      "\<lparr>isLoading = False, currentPath = ''/account'',
       scrollPositionCache = Some \<lparr>pathname = ''/notifications'', scrollY = 7\<rparr>\<rparr>"
      example_URL "example_browser ''/account'' 0" "''/notifications/''"]
    consume_exact [of
      "\<lparr>isLoading = False, currentPath = ''/account'', scrollPositionCache = None\<rparr>"
      example_URL "example_browser ''/account'' 0" "''/x''"]
  by (simp add: cache_inv_def)

text \<open>
  C8. However \<^verbatim>\<open>session.setup()\<close> settles, \<^verbatim>\<open>load\<close> sets \<^verbatim>\<open>isLoading\<close> to
  false; a rejection is thrown on by \<^verbatim>\<open>load\<close>, a fulfilment throws nothing. Once
  \<^verbatim>\<open>isLoading\<close> is false no sequence of events makes it true again.
\<close>

theorem load_always_leaves_loading:
  "isLoading (state_after (load settled a)) = False
   \<and> thrown_by (load (Inl err) a) = Some err
   \<and> thrown_by (load (Inr ()) a) = None
   \<and> (\<not> isLoading a \<longrightarrow> \<not> isLoading (run URL_new split_DRIVE_KEY evs a))"
  by (simp add: load_def outcome_defs run_isLoading)

theorem load_always_leaves_loading_witness:
  "isLoading (state_after (load (Inl (Thrown ''network error''))
       (CtznApp_constructor (example_browser ''/'' 0)))) = False
   \<and> thrown_by (load (Inl (Thrown ''network error''))
       (CtznApp_constructor (example_browser ''/'' 0))) = Some (Thrown ''network error'')
   \<and> \<not> isLoading (run example_URL example_split
        [(example_browser ''/'' 0, NavigateTo ''/account''),
         (example_browser ''/'' 0, Popstate StateNull)]
        (state_after (load (Inl (Thrown ''network error''))
           (CtznApp_constructor (example_browser ''/'' 0)))))"
  using load_always_leaves_loading [of "Inl (Thrown ''network error'')"
      "CtznApp_constructor (example_browser ''/'' 0)" "Thrown ''network error''"
      example_URL example_split
      "[(example_browser ''/'' 0, NavigateTo ''/account''),
         (example_browser ''/'' 0, Popstate StateNull)]"]
    load_always_leaves_loading [of "Inl (Thrown ''network error'')"
      "state_after (load (Inl (Thrown ''network error''))
           (CtznApp_constructor (example_browser ''/'' 0)))" "Thrown ''network error''"
      example_URL example_split
      "[(example_browser ''/'' 0, NavigateTo ''/account''),
         (example_browser ''/'' 0, Popstate StateNull)]"]
  by simp

subsection \<open>Back and forward\<close>

text \<open>
  C7. Whatever the state of the reactivated entry, \<^verbatim>\<open>onHistoryPopstate\<close> first emits
  \<^verbatim>\<open>close-all-popups\<close> and then sets \<^verbatim>\<open>currentPath\<close> to the pathname of the
  location; it schedules a restoration only for a state whose \<^verbatim>\<open>scrollY\<close> is a number
  other than zero, and then to that offset.
\<close>

theorem popstate_dismisses_then_updates:
  "take 2 (effects_of (onHistoryPopstate b state a))
     = [Emit ''close-all-popups'', SetCurrentPath (location_pathname b)]
   \<and> state_after (onHistoryPopstate b state a) = a\<lparr>currentPath := location_pathname b\<rparr>
   \<and> restorations (effects_of (onHistoryPopstate b state a))
     = (case state of
          StateObject (Some y) \<Rightarrow> if y \<noteq> 0 then [y] else []
        | _ \<Rightarrow> [])"
  by (simp add: onHistoryPopstate_def outcome_defs Let_def
      split: history_state.splits option.splits)

theorem popstate_dismisses_then_updates_witness:
  "effects_of (onHistoryPopstate (example_browser ''/account'' 0) (StateObject (Some 120))
      \<lparr>isLoading = False, currentPath = ''/'', scrollPositionCache = None\<rparr>)
     = [Emit ''close-all-popups'', SetCurrentPath ''/account'', ScrollToAfterLoad 120]
   \<and> restorations (effects_of (onHistoryPopstate (example_browser ''/account'' 0) (StateObject (Some 0))
      \<lparr>isLoading = False, currentPath = ''/'', scrollPositionCache = None\<rparr>)) = []
   \<and> take 2 (effects_of (onHistoryPopstate (example_browser ''/account'' 0) (StateObject None)
      \<lparr>isLoading = False, currentPath = ''/'', scrollPositionCache = None\<rparr>))
     = [Emit ''close-all-popups'', SetCurrentPath ''/account'']"
  using popstate_dismisses_then_updates [of "example_browser ''/account'' 0" "StateObject (Some 120)"
      "\<lparr>isLoading = False, currentPath = ''/'', scrollPositionCache = None\<rparr>"]
    popstate_dismisses_then_updates [of "example_browser ''/account'' 0" "StateObject (Some 0)"
      "\<lparr>isLoading = False, currentPath = ''/'', scrollPositionCache = None\<rparr>"]
    popstate_dismisses_then_updates [of "example_browser ''/account'' 0" "StateObject None"
      "\<lparr>isLoading = False, currentPath = ''/'', scrollPositionCache = None\<rparr>"]
  by (simp add: onHistoryPopstate_def outcome_defs example_browser_def)

text \<open>
  C10. On a \<^verbatim>\<open>null\<close> state \<^verbatim>\<open>onHistoryPopstate\<close> throws a \<^verbatim>\<open>TypeError\<close>, after it
  has emitted \<^verbatim>\<open>close-all-popups\<close> and set \<^verbatim>\<open>currentPath\<close>; nothing catches it.
\<close>

theorem popstate_null_state_throws:
  "onHistoryPopstate b StateNull a =
     (a\<lparr>currentPath := location_pathname b\<rparr>,
      [Emit ''close-all-popups'', SetCurrentPath (location_pathname b)],
      Some TypeError)"
  by (simp add: onHistoryPopstate_def)

text \<open>Going back to an entry that was never stamped, right after the constructor.\<close>

theorem popstate_null_state_throws_witness:
  "thrown_by (handle example_URL example_split (example_browser ''/'' 0) (Popstate StateNull)
      (CtznApp_constructor (example_browser ''/'' 0))) = Some TypeError
   \<and> effects_of (handle example_URL example_split (example_browser ''/'' 0) (Popstate StateNull)
      (CtznApp_constructor (example_browser ''/'' 0)))
     = [Emit ''close-all-popups'', SetCurrentPath ''/'']"
  using popstate_null_state_throws [of "example_browser ''/'' 0"
      "CtznApp_constructor (example_browser ''/'' 0)"]
  by (simp add: outcome_defs example_browser_def)

subsection \<open>Clicks\<close>

lemma find_anchor_append:
  "find_anchor (xs @ ys) anchor = find_anchor ys (find_anchor xs anchor)"
  by (induction xs arbitrary: anchor) simp_all

lemma find_anchor_last:
  "find_anchor path anchor =
     (case rev (filter (tagName_is ''A'') path) of [] \<Rightarrow> anchor | el # _ \<Rightarrow> Some el)"
proof (induction path rule: rev_induct)
  case Nil
  then show ?case by simp
next
  case (snoc el path)
  then show ?case by (simp add: find_anchor_append)
qed

lemma find_anchor_outermost: "find_anchor path None = outermost_anchor path"
  by (simp add: find_anchor_last outermost_anchor_def)

lemma single_anchor_nearest:
  "length (filter (tagName_is ''A'') path) = 1 \<Longrightarrow> outermost_anchor path = nearest_anchor path"
  by (cases "filter (tagName_is ''A'') path") (simp_all add: outermost_anchor_def nearest_anchor_def)

lemma outermost_is_anchor:
  assumes "outermost_anchor path = Some el"
  shows "tagName_is ''A'' el"
proof (cases "rev (filter (tagName_is ''A'') path)")
  case Nil
  with assms show ?thesis by (simp only: outermost_anchor_def list.case option.distinct)
next
  case (Cons x xs)
  with assms have "x = el" by (simp only: outermost_anchor_def list.case option.inject)
  with Cons have "el \<in> set (rev (filter (tagName_is ''A'') path))"
    by (simp only: list.set_intros)
  then show ?thesis by simp
qed

lemma outermost_single: "tagName_is ''A'' el \<Longrightarrow> outermost_anchor [el] = Some el"
  by (simp add: outermost_anchor_def)

text \<open>
  C4, as the code has it. The loop over the composed path has no \<^verbatim>\<open>break\<close>: it ends
  with the last anchor of the path, the outermost one, which is the nearest one when the
  path holds a single anchor. A click that is not yet default-prevented is handled as
  if that anchor were alone in the path; without an anchor, and on a click that is
  already default-prevented, nothing happens.
\<close>

theorem click_examines_outermost_anchor:
  "find_anchor (composedPath e) None = outermost_anchor (composedPath e)
   \<and> (length (filter (tagName_is ''A'') (composedPath e)) = 1 \<longrightarrow>
        outermost_anchor (composedPath e) = nearest_anchor (composedPath e))
   \<and> onGlobalClick URL_new b e a =
       (if defaultPrevented e then (a, [], None)
        else case outermost_anchor (composedPath e) of
          None \<Rightarrow> (a, [], None)
        | Some el \<Rightarrow>
            onGlobalClick URL_new b \<lparr>defaultPrevented = False, composedPath = [el]\<rparr> a)"
proof -
  have "onGlobalClick URL_new b e a =
       (if defaultPrevented e then (a, [], None)
        else case outermost_anchor (composedPath e) of
          None \<Rightarrow> (a, [], None)
        | Some el \<Rightarrow>
            onGlobalClick URL_new b \<lparr>defaultPrevented = False, composedPath = [el]\<rparr> a)"
  proof (cases "outermost_anchor (composedPath e)")
    case None
    then show ?thesis by (simp add: onGlobalClick_def find_anchor_outermost)
  next
    case (Some el)
    then have "tagName_is ''A'' el" by (rule outermost_is_anchor)
    with Some show ?thesis by (simp add: onGlobalClick_def find_anchor_outermost outermost_single)
  qed
  then show ?thesis
    by (simp add: find_anchor_outermost single_anchor_nearest)
qed

theorem click_examines_outermost_anchor_witness:
  "find_anchor [Element ''SPAN'' None, Element ''A'' (Some ''/inner''), OtherTarget] None
     = Some (Element ''A'' (Some ''/inner''))
   \<and> nearest_anchor [Element ''SPAN'' None, Element ''A'' (Some ''/inner''), OtherTarget]
     = Some (Element ''A'' (Some ''/inner''))
   \<and> onGlobalClick example_URL (example_browser ''/'' 0)
       \<lparr>defaultPrevented = False, composedPath = [Element ''SPAN'' None, OtherTarget]\<rparr>
       \<lparr>isLoading = False, currentPath = ''/'', scrollPositionCache = None\<rparr>
     = (\<lparr>isLoading = False, currentPath = ''/'', scrollPositionCache = None\<rparr>, [], None)"
  using click_examines_outermost_anchor [of
      "\<lparr>defaultPrevented = False,
        composedPath = [Element ''SPAN'' None, Element ''A'' (Some ''/inner''), OtherTarget]\<rparr>"
      example_URL "example_browser ''/'' 0"
      "\<lparr>isLoading = False, currentPath = ''/'', scrollPositionCache = None\<rparr>"]
    click_examines_outermost_anchor [of
      "\<lparr>defaultPrevented = False, composedPath = [Element ''SPAN'' None, OtherTarget]\<rparr>"
      example_URL "example_browser ''/'' 0"
      "\<lparr>isLoading = False, currentPath = ''/'', scrollPositionCache = None\<rparr>"]
  by (simp add: outermost_anchor_def nearest_anchor_def)

text \<open>
  An anchor to \<^verbatim>\<open>/inner\<close> inside an anchor to \<^verbatim>\<open>/outer\<close>: the nearest anchor is the
  inner one, the handler takes the outer one and navigates to \<^verbatim>\<open>/outer\<close>.
\<close>

theorem click_nearest_anchor_counterexample:
  "nearest_anchor [Element ''SPAN'' None, Element ''A'' (Some ''/inner''), Element ''DIV'' None,
        Element ''A'' (Some ''/outer''), OtherTarget]
     = Some (Element ''A'' (Some ''/inner''))
   \<and> find_anchor [Element ''SPAN'' None, Element ''A'' (Some ''/inner''), Element ''DIV'' None,
        Element ''A'' (Some ''/outer''), OtherTarget] None
     = Some (Element ''A'' (Some ''/outer''))
   \<and> effects_of (onGlobalClick example_URL (example_browser ''/'' 0)
       \<lparr>defaultPrevented = False,
        composedPath = [Element ''SPAN'' None, Element ''A'' (Some ''/inner''), Element ''DIV'' None,
          Element ''A'' (Some ''/outer''), OtherTarget]\<rparr>
       \<lparr>isLoading = False, currentPath = ''/'', scrollPositionCache = None\<rparr>)
     = [PreventDefault, SetScrollRestoration ''manual'', ReplaceState (StateObject (Some 0)),
        PushState (StateObject None) ''/outer'', SetCurrentPath ''/outer'']"
  by (simp add: nearest_anchor_def onGlobalClick_def navigateTo_def Let_def example_URL_def
      pushState_throws_def path_absolute_def strip_tab_newline_def
      example_browser_def outcome_defs)




end
